theory Spec2Isabelle
  imports Main "HOL-Library.Finite_Map" "HOL-Library.Word"
begin

section \<open>Diversity filter: the admission decision of diversity.hpp\<close>

text \<open>
  The embedding follows \<^verbatim>\<open>DiversityFilterT<Fetcher>::accepted\<close>
  (searchlib/attribute/diversity.hpp, lines 34-51). The object is a record that is
  passed in and returned updated; the hash map \<^verbatim>\<open>_seen\<close> is a finite map from group
  values to counts and \<^verbatim>\<open>_seen.size()\<close> is the number of its keys.
\<close>

subsection \<open>Data\<close>

type_synonym docid = "32 word"

text \<open>
  Modelled from the spec: the class declaration (diversity.h) is not among the sources,
  so the members are taken from the spec's data model (section 3): the counters and the
  three caps are integers that start at or above zero (naturals here), the overflow
  policy is a boolean, the tracked map sends a group key to its accepted count. The
  names are those the body of \<^verbatim>\<open>accepted\<close> uses, without the leading underscore;
  \<open>max_per_group\<close> is the spec's name for the cap that the absent helper compares with.
  The fetcher \<^verbatim>\<open>_diversity.get\<close> is the function \<open>diversity\<close>.
\<close>

record 'g DiversityFilterT =
  max_total :: nat
  total_count :: nat
  diversity :: "docid \<Rightarrow> 'g"
  max_per_group :: nat
  cutoff_max_groups :: nat
  cutoff_strict :: bool
  seen :: "('g, nat) fmap"

text \<open>
  Modelled from the spec: the constructor is in the absent diversity.h. A fresh filter
  has \<open>total_accepted = 0\<close> and an empty tracked map (spec, section 3); the four
  configuration values and the fetcher are the caller's.
\<close>

definition fresh ::
  "(docid \<Rightarrow> 'g) \<Rightarrow> nat \<Rightarrow> nat \<Rightarrow> bool \<Rightarrow> nat \<Rightarrow> 'g DiversityFilterT" where
  "fresh fetcher per_group max_groups strict cap =
     \<lparr> max_total = cap, total_count = 0, diversity = fetcher,
       max_per_group = per_group, cutoff_max_groups = max_groups,
       cutoff_strict = strict, seen = fmempty \<rparr>"

subsection \<open>The helpers of the absent header\<close>

text \<open>
  Modelled from the spec: \<^verbatim>\<open>add()\<close> is declared in diversity.h, which is not among
  the sources. Spec 4.3 step 5 (uncapped admission): increment \<open>total_accepted\<close> and
  return \<open>true\<close>.
\<close>

definition add :: "'g DiversityFilterT \<Rightarrow> bool \<times> 'g DiversityFilterT" where
  "add s = (True, s\<lparr>total_count := total_count s + 1\<rparr>)"

text \<open>
  Modelled from the spec: \<^verbatim>\<open>conditional_add(count)\<close> is declared in diversity.h,
  which is not among the sources. Spec 4.3 step 4 (conditional admission): if the
  group's current count is below \<open>max_per_group\<close>, increment that count and
  \<open>total_accepted\<close> and return \<open>true\<close>; else return \<open>false\<close>. The count is an in-out
  argument: it is passed as a value and returned, next to the answer and the object.
\<close>

definition conditional_add ::
  "nat \<Rightarrow> 'g DiversityFilterT \<Rightarrow> bool \<times> nat \<times> 'g DiversityFilterT" where
  "conditional_add group_count s =
     (if group_count < max_per_group s
      then (let (b, s') = add s in (b, group_count + 1, s'))
      else (False, group_count, s))"

subsection \<open>The hash map\<close>

text \<open>
  \<^verbatim>\<open>_seen[group]\<close>: the entry of the key, inserted with the count 0 when the key is
  absent. The result is the count the reference points at and the map after the access.
\<close>

definition seen_index :: "'g \<Rightarrow> ('g, nat) fmap \<Rightarrow> nat \<times> ('g, nat) fmap" where
  "seen_index g m =
     (case fmlookup m g of
        None \<Rightarrow> (0, fmupd g 0 m)
      | Some c \<Rightarrow> (c, m))"

text \<open>
  The write through the reference that \<^verbatim>\<open>conditional_add\<close> received: the count it
  returns is stored in the entry of the key \<open>g\<close>.
\<close>

definition store_count ::
  "'g \<Rightarrow> bool \<times> nat \<times> 'g DiversityFilterT \<Rightarrow> bool \<times> 'g DiversityFilterT" where
  "store_count g r =
     (case r of (b, c, s) \<Rightarrow> (b, s\<lparr>seen := fmupd g c (seen s)\<rparr>))"

definition seen_size :: "'g DiversityFilterT \<Rightarrow> nat" where
  "seen_size s = fcard (fmdom (seen s))"

subsection \<open>accepted\<close>

definition accepted :: "docid \<Rightarrow> 'g DiversityFilterT \<Rightarrow> bool \<times> 'g DiversityFilterT" where
  "accepted docId s =
     (if total_count s < max_total s then
        (if seen_size s < cutoff_max_groups s \<or> cutoff_strict s then
           (let group = diversity s docId in
              if seen_size s < cutoff_max_groups s then
                (let (c, m) = seen_index group (seen s)
                 in store_count group (conditional_add c (s\<lparr>seen := m\<rparr>)))
              else
                (case fmlookup (seen s) group of
                   None \<Rightarrow> add s
                 | Some c \<Rightarrow> store_count group (conditional_add c s)))
         else if \<not> cutoff_strict s then add s
         else (False, s))
      else (False, s))"

subsection \<open>Call sequences\<close>

text \<open>
  The driver calls \<^verbatim>\<open>accepted\<close> once per candidate, in stream order. \<open>final\<close> is the
  object after the calls, \<open>trace\<close> the answers in order.
\<close>

definition final :: "'g DiversityFilterT \<Rightarrow> docid list \<Rightarrow> 'g DiversityFilterT" where
  "final s ds = foldl (\<lambda>s d. snd (accepted d s)) s ds"

fun trace :: "'g DiversityFilterT \<Rightarrow> docid list \<Rightarrow> bool list" where
  "trace s [] = []"
| "trace s (d # ds) = fst (accepted d s) # trace (snd (accepted d s)) ds"

text \<open>
  The number of calls of the sequence that returned \<open>true\<close> for a document whose group
  is \<open>g\<close>.
\<close>

fun accepted_of_group :: "'g \<Rightarrow> 'g DiversityFilterT \<Rightarrow> docid list \<Rightarrow> nat" where
  "accepted_of_group g s [] = 0"
| "accepted_of_group g s (d # ds) =
     (if fst (accepted d s) \<and> diversity s d = g then 1 else 0)
       + accepted_of_group g (snd (accepted d s)) ds"

subsection \<open>Vocabulary of the statements\<close>

text \<open>The count held for a group: the stored count, 0 for a group that is not tracked.\<close>

definition count_of :: "'g DiversityFilterT \<Rightarrow> 'g \<Rightarrow> nat" where
  "count_of s g = (case fmlookup (seen s) g of None \<Rightarrow> 0 | Some c \<Rightarrow> c)"

text \<open>
  The stream of the spec's concrete scenarios: seven documents, numbered from 0, whose
  groups are A, A, A, B, B, C, C in this order.
\<close>

definition example_fetcher :: "docid \<Rightarrow> string" where
  "example_fetcher d = (if d < 3 then ''A'' else if d < 5 then ''B'' else ''C'')"

definition example_docs :: "docid list" where
  "example_docs = [0, 1, 2, 3, 4, 5, 6]"

section \<open>Properties\<close>

subsection \<open>One call, case by case\<close>


lemma fmupd_same: "fmlookup m g = Some c \<Longrightarrow> fmupd g c m = m"
  by (rule fmap_ext) auto

lemma accepted_capped: "\<not> total_count s < max_total s \<Longrightarrow> accepted d s = (False, s)"
  by (simp add: accepted_def)

lemma accepted_room_new:
  "total_count s < max_total s \<Longrightarrow> seen_size s < cutoff_max_groups s \<Longrightarrow>
   fmlookup (seen s) (diversity s d) = None \<Longrightarrow>
   accepted d s =
     (if 0 < max_per_group s
      then (True, s\<lparr>total_count := total_count s + 1, seen := fmupd (diversity s d) 1 (seen s)\<rparr>)
      else (False, s\<lparr>seen := fmupd (diversity s d) 0 (seen s)\<rparr>))"
  by (simp add: accepted_def seen_index_def conditional_add_def add_def store_count_def)

lemma accepted_tracked:
  "total_count s < max_total s \<Longrightarrow> seen_size s < cutoff_max_groups s \<or> cutoff_strict s \<Longrightarrow>
   fmlookup (seen s) (diversity s d) = Some c \<Longrightarrow>
   accepted d s =
     (if c < max_per_group s
      then (True, s\<lparr>total_count := total_count s + 1, seen := fmupd (diversity s d) (c + 1) (seen s)\<rparr>)
      else (False, s))"
  by (cases "seen_size s < cutoff_max_groups s")
     (auto simp add: accepted_def Let_def seen_index_def conditional_add_def add_def store_count_def fmupd_same)

lemma accepted_full_new:
  "total_count s < max_total s \<Longrightarrow> \<not> seen_size s < cutoff_max_groups s \<Longrightarrow> cutoff_strict s \<Longrightarrow>
   fmlookup (seen s) (diversity s d) = None \<Longrightarrow>
   accepted d s = (True, s\<lparr>total_count := total_count s + 1\<rparr>)"
  by (simp add: accepted_def add_def)

lemma accepted_degraded:
  "total_count s < max_total s \<Longrightarrow> \<not> seen_size s < cutoff_max_groups s \<Longrightarrow> \<not> cutoff_strict s \<Longrightarrow>
   accepted d s = (True, s\<lparr>total_count := total_count s + 1\<rparr>)"
  by (simp add: accepted_def add_def)

lemma final_Nil: "final s [] = s" by (simp add: final_def)
lemma final_Cons: "final s (d # ds) = final (snd (accepted d s)) ds" by (simp add: final_def)
lemma final_snoc: "final s (ds @ [d]) = snd (accepted d (final s ds))" by (simp add: final_def)
lemma final_append: "final s (ds @ es) = final (final s ds) es" by (simp add: final_def)

lemma trace_append: "trace s (ds @ es) = trace s ds @ trace (final s ds) es"
  by (induction ds arbitrary: s) (simp_all add: final_Nil final_Cons)

lemma length_trace: "length (trace s ds) = length ds"
  by (induction ds arbitrary: s) simp_all

text \<open>One call, all cases at once.\<close>

lemma accepted_result:
  "accepted d s = (False, s) \<or>
   accepted d s = (False, s\<lparr>seen := fmupd (diversity s d) 0 (seen s)\<rparr>) \<and>
     fmlookup (seen s) (diversity s d) = None \<and> seen_size s < cutoff_max_groups s \<and> max_per_group s = 0 \<and> total_count s < max_total s \<or>
   accepted d s = (True, s\<lparr>total_count := total_count s + 1\<rparr>) \<and> total_count s < max_total s \<and>
     \<not> seen_size s < cutoff_max_groups s \<or>
   (\<exists>c. accepted d s = (True, s\<lparr>total_count := total_count s + 1, seen := fmupd (diversity s d) (c + 1) (seen s)\<rparr>) \<and>
     total_count s < max_total s \<and> c < max_per_group s \<and> (seen_size s < cutoff_max_groups s \<or> cutoff_strict s) \<and>
     (fmlookup (seen s) (diversity s d) = Some c \<or>
      fmlookup (seen s) (diversity s d) = None \<and> c = 0 \<and> seen_size s < cutoff_max_groups s))"
proof (cases "total_count s < max_total s")
  case False
  then show ?thesis by (simp add: accepted_capped)
next
  case tot: True
  show ?thesis
  proof (cases "fmlookup (seen s) (diversity s d)")
    case None
    show ?thesis
    proof (cases "seen_size s < cutoff_max_groups s")
      case True
      with tot None show ?thesis by (simp add: accepted_room_new)
    next
      case False
      with tot None show ?thesis
        by (cases "cutoff_strict s") (simp_all add: accepted_full_new accepted_degraded)
    qed
  next
    case (Some c)
    show ?thesis
    proof (cases "seen_size s < cutoff_max_groups s \<or> cutoff_strict s")
      case True
      with tot Some show ?thesis by (simp add: accepted_tracked)
    next
      case False
      with tot show ?thesis by (simp add: accepted_degraded)
    qed
  qed
qed

subsection \<open>Frame of one call\<close>

lemma accepted_config:
  "max_total (snd (accepted d s)) = max_total s"
  "diversity (snd (accepted d s)) = diversity s"
  "max_per_group (snd (accepted d s)) = max_per_group s"
  "cutoff_max_groups (snd (accepted d s)) = cutoff_max_groups s"
  "cutoff_strict (snd (accepted d s)) = cutoff_strict s"
  using accepted_result [of d s] by auto

lemma accepted_total:
  "total_count (snd (accepted d s)) = total_count s + (if fst (accepted d s) then 1 else 0)"
  using accepted_result [of d s] by auto

lemma accepted_total_le:
  "total_count s \<le> max_total s \<Longrightarrow> total_count (snd (accepted d s)) \<le> max_total s"
  using accepted_result [of d s] by auto

lemma accepted_dom:
  "fmdom (seen (snd (accepted d s))) =
     (if total_count s < max_total s \<and> seen_size s < cutoff_max_groups s
      then finsert (diversity s d) (fmdom (seen s)) else fmdom (seen s))"
proof (cases "total_count s < max_total s")
  case False
  then show ?thesis by (simp add: accepted_capped)
next
  case tot: True
  show ?thesis
  proof (cases "fmlookup (seen s) (diversity s d)")
    case None
    with tot show ?thesis
      by (cases "seen_size s < cutoff_max_groups s"; cases "cutoff_strict s")
         (simp_all add: accepted_room_new accepted_full_new accepted_degraded)
  next
    case (Some c)
    then have "diversity s d |\<in>| fmdom (seen s)" by (simp add: fmdomI)
    then have ins: "finsert (diversity s d) (fmdom (seen s)) = fmdom (seen s)" by auto
    show ?thesis
    proof (cases "seen_size s < cutoff_max_groups s \<or> cutoff_strict s")
      case True
      with tot Some ins show ?thesis by (auto simp add: accepted_tracked)
    next
      case False
      with tot show ?thesis by (simp add: accepted_degraded)
    qed
  qed
qed

lemma accepted_dom_mono: "fmdom (seen s) |\<subseteq>| fmdom (seen (snd (accepted d s)))"
  by (auto simp add: accepted_dom)

lemma accepted_size_mono: "seen_size s \<le> seen_size (snd (accepted d s))"
  unfolding seen_size_def by (rule fcard_mono) (rule accepted_dom_mono)

lemma accepted_size_le:
  "seen_size s \<le> cutoff_max_groups s \<Longrightarrow> seen_size (snd (accepted d s)) \<le> cutoff_max_groups s"
  by (auto simp add: seen_size_def accepted_dom fcard_finsert_if)

lemma accepted_count:
  assumes "cutoff_strict s \<or> seen_size s < cutoff_max_groups s"
    and "fmlookup (seen s) (diversity s d) = None \<longrightarrow> seen_size s < cutoff_max_groups s"
  shows "count_of (snd (accepted d s)) g =
           count_of s g + (if fst (accepted d s) \<and> diversity s d = g then 1 else 0)"
proof (cases "total_count s < max_total s")
  case False
  then show ?thesis by (simp add: accepted_capped)
next
  case tot: True
  show ?thesis
  proof (cases "fmlookup (seen s) (diversity s d)")
    case None
    with assms tot show ?thesis by (auto simp add: accepted_room_new count_of_def)
  next
    case (Some c)
    with assms tot show ?thesis
      by (cases "c < max_per_group s") (auto simp add: accepted_tracked count_of_def)
  qed
qed

lemma accepted_count_le:
  assumes "count_of s g \<le> max_per_group s"
  shows "count_of (snd (accepted d s)) g \<le> max_per_group s"
proof (cases "diversity s d = g")
  case False
  with accepted_result [of d s] have "count_of (snd (accepted d s)) g = count_of s g"
    by (auto simp add: count_of_def)
  with assms show ?thesis by simp
next
  case True
  with accepted_result [of d s] assms show ?thesis
    by (auto simp add: count_of_def)
qed

subsection \<open>Frame of a call sequence\<close>

lemma final_config:
  "max_total (final s ds) = max_total s"
  "diversity (final s ds) = diversity s"
  "max_per_group (final s ds) = max_per_group s"
  "cutoff_max_groups (final s ds) = cutoff_max_groups s"
  "cutoff_strict (final s ds) = cutoff_strict s"
  by (induction ds rule: rev_induct) (simp_all add: final_Nil final_snoc accepted_config)

lemma final_total_mono: "total_count s \<le> total_count (final s ds)"
  by (induction ds rule: rev_induct) (simp_all add: final_Nil final_snoc accepted_total)

lemma final_total_le:
  "total_count s \<le> max_total s \<Longrightarrow> total_count (final s ds) \<le> max_total s"
proof (induction ds rule: rev_induct)
  case Nil
  then show ?case by (simp add: final_Nil)
next
  case (snoc d ds)
  then have "total_count (final s ds) \<le> max_total (final s ds)" by (simp add: final_config)
  then have "total_count (snd (accepted d (final s ds))) \<le> max_total (final s ds)"
    by (rule accepted_total_le)
  then show ?case by (simp add: final_snoc final_config)
qed

lemma final_capped:
  "\<not> total_count s < max_total s \<Longrightarrow> final s ds = s"
  by (induction ds) (simp_all add: final_Nil final_Cons accepted_capped)

lemma trace_capped:
  "\<not> total_count s < max_total s \<Longrightarrow> trace s ds = replicate (length ds) False"
  by (induction ds) (simp_all add: accepted_capped)

lemma final_dom_mono: "fmdom (seen s) |\<subseteq>| fmdom (seen (final s ds))"
proof (induction ds rule: rev_induct)
  case Nil
  show ?case by (simp add: final_Nil)
next
  case (snoc d ds)
  from snoc accepted_dom_mono [of "final s ds" d] show ?case
    unfolding final_snoc by (rule order_trans)
qed

lemma final_size_le:
  "seen_size s \<le> cutoff_max_groups s \<Longrightarrow> seen_size (final s ds) \<le> cutoff_max_groups s"
proof (induction ds rule: rev_induct)
  case Nil
  then show ?case by (simp add: final_Nil)
next
  case (snoc d ds)
  then have "seen_size (final s ds) \<le> cutoff_max_groups (final s ds)" by (simp add: final_config)
  then have "seen_size (snd (accepted d (final s ds))) \<le> cutoff_max_groups (final s ds)"
    by (rule accepted_size_le)
  then show ?case by (simp add: final_snoc final_config)
qed

lemma fresh_simps:
  "max_total (fresh f p m st cap) = cap"
  "total_count (fresh f p m st cap) = 0"
  "diversity (fresh f p m st cap) = f"
  "max_per_group (fresh f p m st cap) = p"
  "cutoff_max_groups (fresh f p m st cap) = m"
  "cutoff_strict (fresh f p m st cap) = st"
  "seen (fresh f p m st cap) = fmempty"
  "seen_size (fresh f p m st cap) = 0"
  by (simp_all add: fresh_def seen_size_def)

lemma final_count_le:
  "count_of s g \<le> max_per_group s \<Longrightarrow> count_of (final s ds) g \<le> max_per_group s"
proof (induction ds rule: rev_induct)
  case Nil
  then show ?case by (simp add: final_Nil)
next
  case (snoc d ds)
  then have "count_of (final s ds) g \<le> max_per_group (final s ds)" by (simp add: final_config)
  then have "count_of (snd (accepted d (final s ds))) g \<le> max_per_group (final s ds)"
    by (rule accepted_count_le)
  then show ?case by (simp add: final_snoc final_config)
qed

text \<open>
  Strict policy, and the groups already tracked together with those of the stream fit
  into the tracked map: the stored count of a group grows by exactly the number of
  accepted documents of that group.
\<close>

lemma strict_counts_exact:
  assumes "cutoff_strict s"
    and "fcard (fmdom (seen s) |\<union>| fset_of_list (map (diversity s) ds)) \<le> cutoff_max_groups s"
  shows "accepted_of_group g s ds + count_of s g = count_of (final s ds) g"
  using assms
proof (induction ds arbitrary: s)
  case Nil
  show ?case by (simp add: final_Nil)
next
  case (Cons d ds)
  let ?s' = "snd (accepted d s)"
  let ?gd = "diversity s d"
  have fits: "fcard (finsert ?gd (fmdom (seen s))) \<le> cutoff_max_groups s"
  proof -
    have "finsert ?gd (fmdom (seen s))
            |\<subseteq>| fmdom (seen s) |\<union>| fset_of_list (map (diversity s) (d # ds))"
      by auto
    then have "fcard (finsert ?gd (fmdom (seen s)))
            \<le> fcard (fmdom (seen s) |\<union>| fset_of_list (map (diversity s) (d # ds)))"
      by (rule fcard_mono)
    with Cons.prems(2) show ?thesis by simp
  qed
  have room: "fmlookup (seen s) ?gd = None \<longrightarrow> seen_size s < cutoff_max_groups s"
  proof
    assume "fmlookup (seen s) ?gd = None"
    then have "?gd |\<notin>| fmdom (seen s)" by (simp add: fmdom_notI)
    with fits show "seen_size s < cutoff_max_groups s"
      by (simp add: seen_size_def fcard_finsert_if)
  qed
  from Cons.prems(1) room
  have step: "count_of ?s' g =
      count_of s g + (if fst (accepted d s) \<and> ?gd = g then 1 else 0)"
    by (intro accepted_count) simp_all
  have "fmdom (seen ?s') |\<subseteq>| finsert ?gd (fmdom (seen s))"
    by (auto simp add: accepted_dom)
  then have "fmdom (seen ?s') |\<union>| fset_of_list (map (diversity s) ds)
      |\<subseteq>| fmdom (seen s) |\<union>| fset_of_list (map (diversity s) (d # ds))"
    by auto
  then have "fcard (fmdom (seen ?s') |\<union>| fset_of_list (map (diversity s) ds))
      \<le> fcard (fmdom (seen s) |\<union>| fset_of_list (map (diversity s) (d # ds)))"
    by (rule fcard_mono)
  with Cons.prems(2)
  have "fcard (fmdom (seen ?s') |\<union>| fset_of_list (map (diversity ?s') ds))
      \<le> cutoff_max_groups ?s'"
    by (simp add: accepted_config)
  moreover from Cons.prems(1) have "cutoff_strict ?s'" by (simp add: accepted_config)
  ultimately have "accepted_of_group g ?s' ds + count_of ?s' g = count_of (final ?s' ds) g"
    by (rule Cons.IH [rotated])
  with step show ?case by (simp add: final_Cons)
qed

text \<open>
  Until the global cap or the capacity of the tracked map is reached, the tracked map
  holds exactly the groups of the documents presented so far.
\<close>

lemma final_tracks_all:
  "\<not> total_count (final s ds) < max_total s \<or>
   cutoff_max_groups s \<le> seen_size (final s ds) \<or>
   fmdom (seen (final s ds)) = fmdom (seen s) |\<union>| fset_of_list (map (diversity s) ds)"
proof (induction ds rule: rev_induct)
  case Nil
  show ?case by (simp add: final_Nil)
next
  case (snoc d ds)
  let ?t = "final s ds"
  show ?case
  proof (cases "total_count ?t < max_total ?t \<and> seen_size ?t < cutoff_max_groups ?t")
    case True
    with snoc have "fmdom (seen ?t) = fmdom (seen s) |\<union>| fset_of_list (map (diversity s) ds)"
      by (simp add: final_config)
    with True have "fmdom (seen (snd (accepted d ?t)))
        = fmdom (seen s) |\<union>| fset_of_list (map (diversity s) (ds @ [d]))"
      by (auto simp add: accepted_dom final_config)
    then show ?thesis by (simp add: final_snoc)
  next
    case False
    then consider "\<not> total_count ?t < max_total ?t" | "cutoff_max_groups ?t \<le> seen_size ?t"
      by linarith
    then show ?thesis
    proof cases
      case 1
      then have "snd (accepted d ?t) = ?t" by (simp add: accepted_capped)
      with 1 show ?thesis by (simp add: final_snoc final_config)
    next
      case 2
      with accepted_size_mono [of ?t d] show ?thesis
        by (simp add: final_snoc final_config)
    qed
  qed
qed

lemma fmdom_fempty_iff: "fmdom m = {||} \<Longrightarrow> m = fmempty"
  by (rule fmap_ext) (simp add: fmdom_notD)

subsection \<open>Claims\<close>

text \<open>
  C1. For every configuration and every sequence of calls to a fresh filter, the total
  count never exceeds the global cap; once it equals the cap, every later call returns
  \<open>false\<close> and leaves the object as it is, so the state is absorbing.
\<close>

theorem global_cap_absorbing:
  "total_count (final (fresh f p m st cap) ds) \<le> cap \<and>
   (total_count (final (fresh f p m st cap) ds) = cap \<longrightarrow>
      trace (final (fresh f p m st cap) ds) es = replicate (length es) False \<and>
      final (final (fresh f p m st cap) ds) es = final (fresh f p m st cap) ds)"
proof -
  let ?s = "final (fresh f p m st cap) ds"
  have cap: "max_total ?s = cap" by (simp add: final_config fresh_simps)
  have "total_count ?s \<le> max_total (fresh f p m st cap)"
    by (rule final_total_le) (simp add: fresh_simps)
  then have le: "total_count ?s \<le> cap" by (simp add: fresh_simps)
  have "trace ?s es = replicate (length es) False \<and> final ?s es = ?s"
    if "total_count ?s = cap"
  proof -
    from that cap have "\<not> total_count ?s < max_total ?s" by simp
    then show ?thesis by (simp add: trace_capped final_capped)
  qed
  with le show ?thesis by blast
qed

theorem global_cap_absorbing_witness:
  "total_count (final (fresh example_fetcher 2 2 True 5) [0, 1, 2, 3, 4, 5]) = 5 \<and>
   trace (final (fresh example_fetcher 2 2 True 5) [0, 1, 2, 3, 4, 5]) [6, 0, 3] = [False, False, False]"
proof -
  have h: "total_count (final (fresh example_fetcher 2 2 True 5) [0, 1, 2, 3, 4, 5]) = 5"
    by code_simp
  from global_cap_absorbing [of example_fetcher 2 2 True 5 "[0, 1, 2, 3, 4, 5]" "[6, 0, 3]"] h
  have "trace (final (fresh example_fetcher 2 2 True 5) [0, 1, 2, 3, 4, 5]) [6, 0, 3]
          = replicate (length [6 :: docid, 0, 3]) False"
    by blast
  with h show ?thesis by (simp add: numeral_3_eq_3)
qed

text \<open>
  C3. For every configuration and every call sequence, with any number of distinct
  groups in it, the tracked map holds at most \<open>cutoff_max_groups\<close> entries after
  every call.
\<close>

theorem tracked_size_bound: "seen_size (final (fresh f p m st cap) ds) \<le> m"
proof -
  have "seen_size (final (fresh f p m st cap) ds) \<le> cutoff_max_groups (fresh f p m st cap)"
    by (rule final_size_le) (simp add: fresh_simps)
  then show ?thesis by (simp add: fresh_simps)
qed

text \<open>
  C7. With the global cap 5, the per-group cap 2, two tracked groups and the strict
  policy, the stream A, A, A, B, B, C, C gives the answers true, true, false, true,
  true, true, false: the totals after the calls are 1, 2, 2, 3, 4, 5, 5, and at the end
  A and B are tracked with count 2 while C was never tracked.
\<close>

theorem example_trace_strict:
  "trace (fresh example_fetcher 2 2 True 5) example_docs
     = [True, True, False, True, True, True, False] \<and>
   map (\<lambda>n. total_count (final (fresh example_fetcher 2 2 True 5) (take n example_docs))) [1, 2, 3, 4, 5, 6, 7]
     = [1, 2, 2, 3, 4, 5, 5] \<and>
   map (\<lambda>g. fmlookup (seen (final (fresh example_fetcher 2 2 True 5) example_docs)) g) [''A'', ''B'', ''C'']
     = [Some 2, Some 2, None]"
  by code_simp

text \<open>
  C4. One call leaves the total count unchanged or adds exactly one to it, so the total
  never decreases over a call sequence. A call that returns \<open>false\<close> changes neither
  the total nor the count stored for any group that was tracked before the call, and a
  call rejected by the global cap returns the object untouched.
\<close>

theorem accepted_monotone_frame:
  "(total_count (snd (accepted d s)) = total_count s \<or>
      total_count (snd (accepted d s)) = total_count s + 1) \<and>
   total_count s \<le> total_count (final s ds) \<and>
   (\<not> fst (accepted d s) \<longrightarrow>
      total_count (snd (accepted d s)) = total_count s \<and>
      (\<forall>g c. fmlookup (seen s) g = Some c \<longrightarrow>
         fmlookup (seen (snd (accepted d s))) g = Some c)) \<and>
   (\<not> total_count s < max_total s \<longrightarrow> accepted d s = (False, s))"
proof -
  have step: "total_count (snd (accepted d s)) = total_count s \<or>
      total_count (snd (accepted d s)) = total_count s + 1"
    by (simp add: accepted_total)
  have rej: "total_count (snd (accepted d s)) = total_count s \<and>
      (\<forall>g c. fmlookup (seen s) g = Some c \<longrightarrow>
         fmlookup (seen (snd (accepted d s))) g = Some c)"
    if "\<not> fst (accepted d s)"
    using accepted_result [of d s] that by auto
  from step rej final_total_mono [of s ds] accepted_capped [of s d] show ?thesis
    by blast
qed

theorem accepted_monotone_frame_witness:
  "\<not> fst (accepted 2 (final (fresh example_fetcher 2 2 True 5) [0, 1])) \<and>
   total_count (snd (accepted 2 (final (fresh example_fetcher 2 2 True 5) [0, 1]))) = 2 \<and>
   fmlookup (seen (snd (accepted 2 (final (fresh example_fetcher 2 2 True 5) [0, 1])))) ''A'' = Some 2 \<and>
   \<not> total_count (final (fresh example_fetcher 2 2 True 5) example_docs)
       < max_total (final (fresh example_fetcher 2 2 True 5) example_docs) \<and>
   accepted 6 (final (fresh example_fetcher 2 2 True 5) example_docs)
     = (False, final (fresh example_fetcher 2 2 True 5) example_docs)"
proof -
  let ?s = "final (fresh example_fetcher 2 2 True 5) [0, 1]"
  let ?t = "final (fresh example_fetcher 2 2 True 5) example_docs"
  have h1: "\<not> fst (accepted 2 ?s)" by code_simp
  have h2: "total_count ?s = 2" by code_simp
  have h3: "fmlookup (seen ?s) ''A'' = Some 2" by code_simp
  have h4: "\<not> total_count ?t < max_total ?t" by code_simp
  from accepted_monotone_frame [of 2 ?s "[]"] h1 h2 h3
  have a: "total_count (snd (accepted 2 ?s)) = 2 \<and>
      fmlookup (seen (snd (accepted 2 ?s))) ''A'' = Some 2"
    by simp
  from accepted_monotone_frame [of 6 ?t "[]"] h4
  have b: "accepted 6 ?t = (False, ?t)" by blast
  from h1 h4 a b show ?thesis by blast
qed

text \<open>
  C6. Under the strict policy, when the tracked map is full and the candidate's group is
  not in it, the candidate is accepted uncapped, subject to the global cap alone: the
  total count grows by one, the answer is \<open>true\<close>, the tracked map stays as it is (the
  group is not inserted), and the answer is the same whatever the per-group cap is.
\<close>

theorem strict_full_untracked_uncapped:
  "cutoff_strict s \<Longrightarrow> seen_size s = cutoff_max_groups s \<Longrightarrow>
   fmlookup (seen s) (diversity s d) = None \<Longrightarrow>
   accepted d s =
     (if total_count s < max_total s
      then (True, s\<lparr>total_count := total_count s + 1\<rparr>) else (False, s)) \<and>
   seen (snd (accepted d s)) = seen s \<and>
   fst (accepted d (s\<lparr>max_per_group := q\<rparr>)) = (total_count s < max_total s)"
proof -
  assume st: "cutoff_strict s" and full: "seen_size s = cutoff_max_groups s"
    and new: "fmlookup (seen s) (diversity s d) = None"
  have main: "accepted d s =
     (if total_count s < max_total s
      then (True, s\<lparr>total_count := total_count s + 1\<rparr>) else (False, s))"
    using st full new by (simp add: accepted_capped accepted_full_new)
  let ?s = "s\<lparr>max_per_group := q\<rparr>"
  have "accepted d ?s =
     (if total_count ?s < max_total ?s
      then (True, ?s\<lparr>total_count := total_count ?s + 1\<rparr>) else (False, ?s))"
    using st full new by (simp add: accepted_capped accepted_full_new seen_size_def)
  then have "fst (accepted d ?s) = (total_count s < max_total s)" by simp
  with main show ?thesis by simp
qed

theorem strict_full_untracked_uncapped_witness:
  "cutoff_strict (final (fresh example_fetcher 2 2 True 5) [0, 1, 2, 3, 4]) \<and>
   seen_size (final (fresh example_fetcher 2 2 True 5) [0, 1, 2, 3, 4]) = 2 \<and>
   fmlookup (seen (final (fresh example_fetcher 2 2 True 5) [0, 1, 2, 3, 4])) ''C'' = None \<and>
   fst (accepted 5 (final (fresh example_fetcher 2 2 True 5) [0, 1, 2, 3, 4])) \<and>
   total_count (snd (accepted 5 (final (fresh example_fetcher 2 2 True 5) [0, 1, 2, 3, 4]))) = 5 \<and>
   seen (snd (accepted 5 (final (fresh example_fetcher 2 2 True 5) [0, 1, 2, 3, 4])))
     = seen (final (fresh example_fetcher 2 2 True 5) [0, 1, 2, 3, 4])"
proof -
  let ?s = "final (fresh example_fetcher 2 2 True 5) [0, 1, 2, 3, 4]"
  have h1: "cutoff_strict ?s" by code_simp
  have h2: "seen_size ?s = cutoff_max_groups ?s" by code_simp
  have h2': "seen_size ?s = 2" by code_simp
  have h3: "fmlookup (seen ?s) (diversity ?s 5) = None" by code_simp
  have h3': "fmlookup (seen ?s) ''C'' = None" by code_simp
  have h4: "total_count ?s = 4" by code_simp
  have h5: "max_total ?s = 5" by code_simp
  from strict_full_untracked_uncapped [OF h1 h2 h3, of 0] h4 h5
  have "fst (accepted 5 ?s) \<and> total_count (snd (accepted 5 ?s)) = 5 \<and>
        seen (snd (accepted 5 ?s)) = seen ?s"
    by simp
  with h1 h2' h3' show ?thesis by blast
qed

text \<open>
  C2. Under the strict policy, when the call sequence holds at most
  \<open>cutoff_max_groups\<close> distinct groups, the number of calls that returned \<open>true\<close>
  for a document of a group is at most the per-group cap, for every group.
\<close>

theorem strict_per_group_cap:
  "card (f ` set ds) \<le> m \<Longrightarrow> accepted_of_group g (fresh f p m True cap) ds \<le> p"
proof -
  let ?s = "fresh f p m True cap"
  assume "card (f ` set ds) \<le> m"
  then have "fcard (fset_of_list (map f ds)) \<le> m"
    by (simp add: fcard.rep_eq fset_of_list.rep_eq)
  then have "fcard (fmdom (seen ?s) |\<union>| fset_of_list (map (diversity ?s) ds))
      \<le> cutoff_max_groups ?s"
    by (simp add: fresh_simps)
  moreover have "cutoff_strict ?s" by (simp add: fresh_simps)
  ultimately have "accepted_of_group g ?s ds + count_of ?s g = count_of (final ?s ds) g"
    by (rule strict_counts_exact [rotated])
  moreover have "count_of (final ?s ds) g \<le> max_per_group ?s"
    by (rule final_count_le) (simp add: count_of_def fresh_simps)
  ultimately show ?thesis by (simp add: fresh_simps)
qed

theorem strict_per_group_cap_witness:
  "card (example_fetcher ` set [0, 1, 2, 3, 4]) \<le> 2 \<and>
   accepted_of_group ''A'' (fresh example_fetcher 2 2 True 5) [0, 1, 2, 3, 4] \<le> 2"
proof -
  have "example_fetcher ` set [0, 1, 2, 3, 4] = {''A'', ''B''}"
    by (auto simp add: example_fetcher_def)
  then have h: "card (example_fetcher ` set [0, 1, 2, 3, 4]) \<le> 2" by simp
  from h strict_per_group_cap [OF h, of "''A''" 2 5] show ?thesis by blast
qed

text \<open>
  C5. Under the non-strict policy, once the calls made so far hold at least
  \<open>cutoff_max_groups\<close> distinct groups, every later call returns \<open>true\<close> as long as
  the total is below the global cap, and only adds one to the total. The answer is the
  same for any fetcher and any stored counts, so neither is consulted; in particular a
  document of a tracked group at its per-group cap is accepted.
\<close>

theorem nonstrict_degradation:
  "m \<le> card (f ` set ds) \<Longrightarrow>
   accepted d (final (fresh f p m False cap) (ds @ es)) =
     (if total_count (final (fresh f p m False cap) (ds @ es)) < cap
      then (True, (final (fresh f p m False cap) (ds @ es))
                    \<lparr>total_count := total_count (final (fresh f p m False cap) (ds @ es)) + 1\<rparr>)
      else (False, final (fresh f p m False cap) (ds @ es))) \<and>
   fst (accepted d ((final (fresh f p m False cap) (ds @ es))
                      \<lparr>diversity := f', seen := fmmap h (seen (final (fresh f p m False cap) (ds @ es)))\<rparr>))
     = (total_count (final (fresh f p m False cap) (ds @ es)) < cap)"
proof -
  let ?s = "fresh f p m False cap"
  let ?t = "final ?s (ds @ es)"
  let ?u = "?t\<lparr>diversity := f', seen := fmmap h (seen ?t)\<rparr>"
  assume "m \<le> card (f ` set ds)"
  also have "card (f ` set ds) \<le> card (f ` set (ds @ es))"
    by (rule card_mono) auto
  also have "card (f ` set (ds @ es)) = fcard (fset_of_list (map f (ds @ es)))"
    by (simp add: fcard.rep_eq fset_of_list.rep_eq image_Un)
  finally have many: "m \<le> fcard (fset_of_list (map f (ds @ es)))" .
  have cfg: "max_total ?t = cap" "cutoff_max_groups ?t = m" "\<not> cutoff_strict ?t"
    by (simp_all add: final_config fresh_simps)
  from final_tracks_all [of ?s "ds @ es"] many
  have full: "total_count ?t < cap \<Longrightarrow> \<not> seen_size ?t < m"
    by (auto simp add: fresh_simps seen_size_def)
  have a: "accepted d ?t =
     (if total_count ?t < cap then (True, ?t\<lparr>total_count := total_count ?t + 1\<rparr>)
      else (False, ?t))"
    using cfg full by (simp add: accepted_capped accepted_degraded)
  have "seen_size ?u = seen_size ?t" by (simp add: seen_size_def)
  with cfg full have "accepted d ?u =
     (if total_count ?t < cap then (True, ?u\<lparr>total_count := total_count ?u + 1\<rparr>)
      else (False, ?u))"
    by (simp add: accepted_capped accepted_degraded)
  then have "fst (accepted d ?u) = (total_count ?t < cap)" by simp
  with a show ?thesis by simp
qed

theorem nonstrict_degradation_witness:
  "(1::nat) \<le> card (example_fetcher ` set [0]) \<and>
   count_of (final (fresh example_fetcher 1 1 False 5) [0]) ''A'' = 1 \<and>
   fst (accepted 1 (final (fresh example_fetcher 1 1 False 5) [0])) \<and>
   total_count (snd (accepted 1 (final (fresh example_fetcher 1 1 False 5) [0]))) = 2"
proof -
  have h: "(1::nat) \<le> card (example_fetcher ` set [0])" by simp
  have c: "count_of (final (fresh example_fetcher 1 1 False 5) [0]) ''A'' = 1" by code_simp
  have t: "total_count (final (fresh example_fetcher 1 1 False 5) [0]) = 1" by code_simp
  from nonstrict_degradation [where m = 1 and f = example_fetcher and ds = "[0]" and d = 1
      and p = 1 and cap = 5 and es = "[]" and f' = example_fetcher and h = id, OF h] t
  have "fst (accepted 1 (final (fresh example_fetcher 1 1 False 5) [0])) \<and>
    total_count (snd (accepted 1 (final (fresh example_fetcher 1 1 False 5) [0]))) = 2"
    by simp
  with h c show ?thesis by blast
qed



text \<open>
  C9. With \<open>cutoff_max_groups = 0\<close> and either policy, after any call sequence on a
  fresh filter the tracked map is still empty, and a call returns \<open>true\<close> (adding one
  to the total and nothing else) exactly when the total is below the global cap; so the
  total after the calls is the smaller of their number and the cap. Every call returns
  a boolean: the function has no error result.
\<close>

theorem zero_tracked_groups:
  "seen (final (fresh f p 0 st cap) ds) = fmempty \<and>
   total_count (final (fresh f p 0 st cap) ds) = min (length ds) cap \<and>
   accepted d (final (fresh f p 0 st cap) ds) =
     (if total_count (final (fresh f p 0 st cap) ds) < cap
      then (True, (final (fresh f p 0 st cap) ds)
                    \<lparr>total_count := total_count (final (fresh f p 0 st cap) ds) + 1\<rparr>)
      else (False, final (fresh f p 0 st cap) ds))"
proof -
  let ?s = "fresh f p 0 st cap"
  have cfg: "max_total (final ?s es) = cap" "cutoff_max_groups (final ?s es) = 0"
    "cutoff_strict (final ?s es) = st" for es
    by (simp_all add: final_config fresh_simps)
  have empty: "seen (final ?s es) = fmempty" for es
  proof -
    have "seen_size (final ?s es) \<le> cutoff_max_groups ?s"
      by (rule final_size_le) (simp add: fresh_simps)
    then have "fmdom (seen (final ?s es)) = {||}"
      by (simp add: fresh_simps seen_size_def fcard_0_eq)
    then show ?thesis by (rule fmdom_fempty_iff)
  qed
  have call: "accepted e (final ?s es) =
     (if total_count (final ?s es) < cap
      then (True, (final ?s es)\<lparr>total_count := total_count (final ?s es) + 1\<rparr>)
      else (False, final ?s es))" for e es
    using cfg [of es] empty [of es]
    by (cases st) (simp_all add: accepted_capped accepted_full_new accepted_degraded seen_size_def)
  have "total_count (final ?s ds) = min (length ds) cap"
  proof (induction ds rule: rev_induct)
    case Nil
    show ?case by (simp add: final_Nil fresh_simps)
  next
    case (snoc e es)
    with call [of e es] show ?case by (auto simp add: final_snoc)
  qed
  with empty [of ds] call [of d ds] show ?thesis by blast
qed

text \<open>
  C10, amended by the global-cap guard of line 37. When the total is below the global
  cap, the tracked map has room and the candidate's group is absent, the call inserts
  the group before the per-group test: the map grows by one entry, which holds 1 after
  an accepted call and 0 after a rejected one, and the entry is there after any further
  calls. With \<open>max_per_group = 0\<close> the call returns \<open>false\<close> and the only change
  is the new entry with count 0.
\<close>

theorem insert_before_cap_check:
  "total_count s < max_total s \<Longrightarrow> seen_size s < cutoff_max_groups s \<Longrightarrow>
   fmlookup (seen s) (diversity s d) = None \<Longrightarrow>
   seen_size (snd (accepted d s)) = seen_size s + 1 \<and>
   fmlookup (seen (snd (accepted d s))) (diversity s d)
     = Some (if fst (accepted d s) then 1 else 0) \<and>
   diversity s d |\<in>| fmdom (seen (final (snd (accepted d s)) ds)) \<and>
   (max_per_group s = 0 \<longrightarrow>
      accepted d s = (False, s\<lparr>seen := fmupd (diversity s d) 0 (seen s)\<rparr>))"
proof -
  assume tot: "total_count s < max_total s" and room: "seen_size s < cutoff_max_groups s"
    and new: "fmlookup (seen s) (diversity s d) = None"
  let ?s' = "snd (accepted d s)"
  from new have notin: "diversity s d |\<notin>| fmdom (seen s)" by (simp add: fmdom_notI)
  from tot room have dom: "fmdom (seen ?s') = finsert (diversity s d) (fmdom (seen s))"
    by (simp add: accepted_dom)
  with notin have size: "seen_size ?s' = seen_size s + 1"
    by (simp add: seen_size_def fcard_finsert_if)
  from tot room new have entry: "fmlookup (seen ?s') (diversity s d)
      = Some (if fst (accepted d s) then 1 else 0)"
    by (simp add: accepted_room_new)
  from dom have "diversity s d |\<in>| fmdom (seen ?s')" by simp
  with final_dom_mono [of ?s' ds] have stays: "diversity s d |\<in>| fmdom (seen (final ?s' ds))"
    by blast
  from tot room new have "max_per_group s = 0 \<longrightarrow>
      accepted d s = (False, s\<lparr>seen := fmupd (diversity s d) 0 (seen s)\<rparr>)"
    by (simp add: accepted_room_new)
  with size entry stays show ?thesis by blast
qed

theorem insert_before_cap_check_witness:
  "seen_size (fresh example_fetcher 0 2 True 5) = 0 \<and>
   \<not> fst (accepted 0 (fresh example_fetcher 0 2 True 5)) \<and>
   seen_size (snd (accepted 0 (fresh example_fetcher 0 2 True 5))) = 1 \<and>
   fmlookup (seen (snd (accepted 0 (fresh example_fetcher 0 2 True 5)))) ''A'' = Some 0 \<and>
   ''A'' |\<in>| fmdom (seen (final (snd (accepted 0 (fresh example_fetcher 0 2 True 5))) [3, 5]))"
proof -
  let ?s = "fresh example_fetcher 0 2 True 5"
  have h1: "total_count ?s < max_total ?s" by code_simp
  have h2: "seen_size ?s < cutoff_max_groups ?s" by code_simp
  have h3: "fmlookup (seen ?s) (diversity ?s 0) = None" by code_simp
  have h4: "max_per_group ?s = 0" by code_simp
  have h5: "seen_size ?s = 0" by code_simp
  have h6: "diversity ?s 0 = ''A''" by code_simp
  let ?s' = "snd (accepted 0 ?s)"
  note ins = insert_before_cap_check [OF h1 h2 h3, of "[3, 5]"]
  from ins h4 have "accepted 0 ?s = (False, ?s\<lparr>seen := fmupd (diversity ?s 0) 0 (seen ?s)\<rparr>)"
    by blast
  then have nf: "\<not> fst (accepted 0 ?s)" by simp
  from ins have "seen_size ?s' = seen_size ?s + 1" by blast
  with h5 have a: "seen_size ?s' = 1" by simp
  from ins have "fmlookup (seen ?s') (diversity ?s 0) = Some (if fst (accepted 0 ?s) then 1 else 0)"
    by blast
  with nf h6 have b: "fmlookup (seen ?s') ''A'' = Some 0" by simp
  from ins have "diversity ?s 0 |\<in>| fmdom (seen (final ?s' [3, 5]))" by blast
  with h6 have c: "''A'' |\<in>| fmdom (seen (final ?s' [3, 5]))" by simp
  from h5 nf a b c show ?thesis by blast
qed

text \<open>
  C10 as worded, with room and an absent group as its only conditions, fails at the
  global cap. After one accepted document of group A under the global cap 1, the
  tracked map holds one of five possible entries and group B is absent; the call for a
  document of group B is rejected by the test of line 37, and the map has no entry for
  B and the same size afterwards.
\<close>

theorem insert_before_cap_check_counterexample:
  "seen_size (final (fresh example_fetcher 2 5 True 1) [0]) < cutoff_max_groups (final (fresh example_fetcher 2 5 True 1) [0]) \<and>
   fmlookup (seen (final (fresh example_fetcher 2 5 True 1) [0]))
     (diversity (final (fresh example_fetcher 2 5 True 1) [0]) 3) = None \<and>
   diversity (final (fresh example_fetcher 2 5 True 1) [0]) 3 = ''B'' \<and>
   \<not> fst (accepted 3 (final (fresh example_fetcher 2 5 True 1) [0])) \<and>
   fmlookup (seen (snd (accepted 3 (final (fresh example_fetcher 2 5 True 1) [0])))) ''B'' = None \<and>
   seen_size (snd (accepted 3 (final (fresh example_fetcher 2 5 True 1) [0])))
     = seen_size (final (fresh example_fetcher 2 5 True 1) [0])"
  by code_simp

end
